theory Spec2Isabelle
  imports Complex_Main "HOL-Library.Monad_Syntax"
begin

section \<open>The paper-trading ledger of \<^verbatim>\<open>backend/services/portfolio_sim.py\<close>\<close>

text \<open>
  The simulator keeps a cash balance, a list of per-symbol positions and a trade history
  (\<^verbatim>\<open>backend/domain.py\<close>). Its one operation, \<^verbatim>\<open>execute_trade\<close>, copies the state it is
  given, updates the copy and returns it, or raises \<^verbatim>\<open>ValueError\<close>.

  Python's \<^verbatim>\<open>float\<close> fields are modelled as real numbers: the arithmetic of the model is
  exact, so rounding, infinities and NaN of IEEE doubles are outside it. Comparisons and
  branches are those of the source.
\<close>

subsection \<open>Data model (\<^verbatim>\<open>domain.py\<close>)\<close>

record Trade =
  symbol :: string
  side :: string
  quantity :: real
  price :: real
  time :: string

record Position =
  symbol :: string
  quantity :: real
  avg_price :: real

record PortfolioState =
  cash :: real
  positions :: "Position list"
  history :: "Trade list"

text \<open>The two \<^verbatim>\<open>raise ValueError(msg)\<close> statements of the source; the message is kept.\<close>

datatype error = ValueError string

subsection \<open>Operations (\<^verbatim>\<open>portfolio_sim.py\<close>)\<close>

text \<open>
  The loop of \<^verbatim>\<open>ensure_position\<close>: the index of the first position whose symbol is the one
  asked for, if there is one.
\<close>

fun find_position :: "Position list \<Rightarrow> string \<Rightarrow> nat option" where
  "find_position [] s = None"
| "find_position (p # ps) s =
     (if Position.symbol p = s then Some 0
      else (case find_position ps s of None \<Rightarrow> None | Some i \<Rightarrow> Some (Suc i)))"

text \<open>
  \<^verbatim>\<open>ensure_position\<close> returns a reference to an element of the list, after appending a
  zero position when the loop found none. Here it returns the list as it is afterwards and
  the index of the element the reference points to.
\<close>

definition ensure_position :: "Position list \<Rightarrow> string \<Rightarrow> Position list \<times> nat" where
  "ensure_position ps s =
     (case find_position ps s of
        Some i \<Rightarrow> (ps, i)
      | None \<Rightarrow> (ps @ [\<lparr>Position.symbol = s, quantity = 0, avg_price = 0\<rparr>], length ps))"

text \<open>
  \<^verbatim>\<open>execute_trade\<close>. The first statement of the source rebuilds the state from its dump, so
  every later assignment is to the copy; as a function on values that is the passing of
  the updated record. \<open>Inl\<close> is a raised exception, \<open>Inr\<close> the returned state. The
  constant \<^verbatim>\<open>1e-9\<close> is \<open>1 / 10 ^ 9\<close>.
\<close>

definition execute_trade ::
  "PortfolioState \<Rightarrow> string \<Rightarrow> string \<Rightarrow> real \<Rightarrow> real \<Rightarrow> string \<Rightarrow> error + PortfolioState" where
  "execute_trade state symb sd qty prc tm =
     (if sd = ''buy'' then
        (let cost = qty * prc in
         if cash state < cost then Inl (ValueError ''Insufficient cash'')
         else
           (let c1 = cash state - cost;
                (ps, i) = ensure_position (positions state) symb;
                pos = ps ! i;
                new_qty = Position.quantity pos + qty;
                pos1 = pos\<lparr>avg_price :=
                         (avg_price pos * Position.quantity pos + prc * qty) / max new_qty (1 / 10 ^ 9)\<rparr>;
                pos2 = pos1\<lparr>Position.quantity := new_qty\<rparr>
            in Inr \<lparr>cash = c1, positions = ps[i := pos2],
                    history = history state @
                      [\<lparr>Trade.symbol = symb, side = sd, quantity = qty, price = prc, time = tm\<rparr>]\<rparr>))
      else
        (let (ps, i) = ensure_position (positions state) symb;
             pos = ps ! i
         in if Position.quantity pos < qty then Inl (ValueError ''Insufficient shares'')
            else
              (let c1 = cash state + qty * prc;
                   pos1 = pos\<lparr>Position.quantity := Position.quantity pos - qty\<rparr>;
                   pos2 = (if Position.quantity pos1 = 0 then pos1\<lparr>avg_price := 0\<rparr> else pos1)
               in Inr \<lparr>cash = c1, positions = ps[i := pos2],
                       history = history state @
                         [\<lparr>Trade.symbol = symb, side = sd, quantity = qty, price = prc, time = tm\<rparr>]\<rparr>)))"

text \<open>
  The position of a symbol is the one the loop of \<^verbatim>\<open>ensure_position\<close> finds; the quantity
  held and the average cost are its fields, or zero, the fields of the position that is
  created otherwise.
\<close>

definition position_of :: "Position list \<Rightarrow> string \<Rightarrow> Position option" where
  "position_of ps s = (case find_position ps s of None \<Rightarrow> None | Some i \<Rightarrow> Some (ps ! i))"

definition held :: "Position list \<Rightarrow> string \<Rightarrow> real" where
  "held ps s = (case position_of ps s of None \<Rightarrow> 0 | Some p \<Rightarrow> Position.quantity p)"

definition avg_cost :: "Position list \<Rightarrow> string \<Rightarrow> real" where
  "avg_cost ps s = (case position_of ps s of None \<Rightarrow> 0 | Some p \<Rightarrow> avg_price p)"

subsection \<open>Sequences of calls\<close>

text \<open>
  A call is given by the five arguments that \<^verbatim>\<open>execute_trade\<close> takes besides the state, the
  fields of the \<^verbatim>\<open>Trade\<close> it records.
\<close>

definition execute_call :: "PortfolioState \<Rightarrow> Trade \<Rightarrow> error + PortfolioState" where
  "execute_call state t =
     execute_trade state (Trade.symbol t) (side t) (Trade.quantity t) (price t) (time t)"

text \<open>
  The states after each call of a sequence in which every call succeeds, each call made on
  the state the previous one returned; \<open>None\<close> when some call raises.
\<close>

fun successful_trades :: "PortfolioState \<Rightarrow> Trade list \<Rightarrow> PortfolioState list option" where
  "successful_trades state [] = Some []"
| "successful_trades state (t # ts) =
     (case execute_call state t of
        Inl e \<Rightarrow> None
      | Inr state' \<Rightarrow>
          (case successful_trades state' ts of None \<Rightarrow> None | Some ss \<Rightarrow> Some (state' # ss)))"

text \<open>
  The state a caller holds after a sequence of calls when, as the \<^verbatim>\<open>paper_trade\<close> handler of
  \<^verbatim>\<open>app.py\<close> does, it stores the returned state and keeps the one it had when the call
  raises.
\<close>

fun retained_state :: "PortfolioState \<Rightarrow> Trade list \<Rightarrow> PortfolioState" where
  "retained_state state [] = state"
| "retained_state state (t # ts) =
     (case execute_call state t of
        Inl e \<Rightarrow> retained_state state ts
      | Inr state' \<Rightarrow> retained_state state' ts)"

subsection \<open>Invariants and a concrete run\<close>

text \<open>
  The two invariants of the data model: a position with quantity zero has average cost zero,
  and no quantity is negative.
\<close>

definition basis_reset :: "PortfolioState \<Rightarrow> bool" where
  "basis_reset state = list_all (\<lambda>p. Position.quantity p = 0 \<longrightarrow> avg_price p = 0) (positions state)"

definition nonneg_quantities :: "PortfolioState \<Rightarrow> bool" where
  "nonneg_quantities state = list_all (\<lambda>p. 0 \<le> Position.quantity p) (positions state)"

text \<open>
  The scenario of the specification: from 1000 in cash, buy 2 of X at 100, buy 2 more at
  200, sell 4 at 150.
\<close>

definition scenario_start :: PortfolioState where
  "scenario_start = \<lparr>cash = 1000, positions = [], history = []\<rparr>"

definition scenario :: "Trade list" where
  "scenario =
    [\<lparr>Trade.symbol = ''X'', side = ''buy'', quantity = 2, price = 100, time = ''t1''\<rparr>,
     \<lparr>Trade.symbol = ''X'', side = ''buy'', quantity = 2, price = 200, time = ''t2''\<rparr>,
     \<lparr>Trade.symbol = ''X'', side = ''sell'', quantity = 4, price = 150, time = ''t3''\<rparr>]"


section \<open>Objects and references\<close>

text \<open>
  In Python a state, its two lists, its positions and its trades are objects, held by
  reference, and \<^verbatim>\<open>execute_trade\<close> assigns to fields and appends to lists in place. Whether
  the caller's state is touched is a matter of which objects those are. The store is a
  list of objects and a reference is an index into it; a new object goes to the end.
\<close>

type_synonym addr = nat

datatype object =
    StateObject real addr addr
  | ListObject "addr list"
  | PositionObject Position
  | TradeObject Trade

type_synonym heap = "object list"

text \<open>
  A \<^verbatim>\<open>PortfolioState\<close> object holds its cash and the references of its \<^verbatim>\<open>positions\<close> and
  \<^verbatim>\<open>history\<close> lists; a list holds the references of its elements.
\<close>

definition alloc :: "heap \<Rightarrow> object \<Rightarrow> heap \<times> addr" where
  "alloc h ob = (h @ [ob], length h)"

fun alloc_all :: "heap \<Rightarrow> object list \<Rightarrow> heap \<times> addr list" where
  "alloc_all h [] = (h, [])"
| "alloc_all h (ob # obs) =
     (let (h1, a) = alloc h ob; (h2, as) = alloc_all h1 obs in (h2, a # as))"

definition lookup :: "heap \<Rightarrow> addr \<Rightarrow> object option" where
  "lookup h a = (if a < length h then Some (h ! a) else None)"

text \<open>
  Reading a field goes through the reference. The result is \<open>None\<close> for a reference to
  nothing or to an object of another class, which a validated state never holds.
\<close>

definition read_state :: "heap \<Rightarrow> addr \<Rightarrow> (real \<times> addr \<times> addr) option" where
  "read_state h a = (case lookup h a of Some (StateObject c pl hl) \<Rightarrow> Some (c, pl, hl) | _ \<Rightarrow> None)"

definition read_list :: "heap \<Rightarrow> addr \<Rightarrow> addr list option" where
  "read_list h a = (case lookup h a of Some (ListObject as) \<Rightarrow> Some as | _ \<Rightarrow> None)"

definition read_position :: "heap \<Rightarrow> addr \<Rightarrow> Position option" where
  "read_position h a = (case lookup h a of Some (PositionObject p) \<Rightarrow> Some p | _ \<Rightarrow> None)"

definition read_trade :: "heap \<Rightarrow> addr \<Rightarrow> Trade option" where
  "read_trade h a = (case lookup h a of Some (TradeObject t) \<Rightarrow> Some t | _ \<Rightarrow> None)"

fun read_all :: "(addr \<Rightarrow> 'a option) \<Rightarrow> addr list \<Rightarrow> 'a list option" where
  "read_all f [] = Some []"
| "read_all f (a # as) = do { x \<leftarrow> f a; xs \<leftarrow> read_all f as; Some (x # xs) }"

text \<open>
  \<^verbatim>\<open>state.model_dump()\<close> is the plain value of a state: its cash, the values of its positions
  and of its trades, in order.
\<close>

definition model_dump :: "heap \<Rightarrow> addr \<Rightarrow> PortfolioState option" where
  "model_dump h r = do {
     (c, pl, hl) \<leftarrow> read_state h r;
     pas \<leftarrow> read_list h pl;
     ps \<leftarrow> read_all (read_position h) pas;
     tas \<leftarrow> read_list h hl;
     ts \<leftarrow> read_all (read_trade h) tas;
     Some \<lparr>cash = c, positions = ps, history = ts\<rparr>
   }"

text \<open>
  \<^verbatim>\<open>PortfolioState(**dump)\<close> builds new objects from a plain value: a position object for
  each position, a trade object for each trade, the two lists and the state.
\<close>

definition construct :: "heap \<Rightarrow> PortfolioState \<Rightarrow> heap \<times> addr" where
  "construct h v =
     (let (h1, pas) = alloc_all h (map PositionObject (positions v));
          (h2, pl) = alloc h1 (ListObject pas);
          (h3, tas) = alloc_all h2 (map TradeObject (history v));
          (h4, hl) = alloc h3 (ListObject tas)
      in alloc h4 (StateObject (cash v) pl hl))"

text \<open>Assignment to a field of an object, and \<^verbatim>\<open>append\<close> on a list.\<close>

definition set_cash :: "heap \<Rightarrow> addr \<Rightarrow> real \<Rightarrow> heap option" where
  "set_cash h r c = do { (_, pl, hl) \<leftarrow> read_state h r; Some (h[r := StateObject c pl hl]) }"

definition set_position :: "heap \<Rightarrow> addr \<Rightarrow> Position \<Rightarrow> heap option" where
  "set_position h a p = do { _ \<leftarrow> read_position h a; Some (h[a := PositionObject p]) }"

definition list_append :: "heap \<Rightarrow> addr \<Rightarrow> addr \<Rightarrow> heap option" where
  "list_append h l a = do { as \<leftarrow> read_list h l; Some (h[l := ListObject (as @ [a])]) }"

text \<open>
  \<^verbatim>\<open>ensure_position\<close> on references: the reference of the first position with the symbol,
  or that of a new zero position, appended to the list in place.
\<close>

fun find_position_ref :: "heap \<Rightarrow> addr list \<Rightarrow> string \<Rightarrow> addr option option" where
  "find_position_ref h [] s = Some None"
| "find_position_ref h (a # as) s = do {
     p \<leftarrow> read_position h a;
     if Position.symbol p = s then Some (Some a) else find_position_ref h as s
   }"

definition ensure_position_ref :: "heap \<Rightarrow> addr \<Rightarrow> string \<Rightarrow> (heap \<times> addr) option" where
  "ensure_position_ref h l s = do {
     as \<leftarrow> read_list h l;
     found \<leftarrow> find_position_ref h as s;
     case found of
       Some a \<Rightarrow> Some (h, a)
     | None \<Rightarrow> do {
         let (h1, new_p) = alloc h (PositionObject \<lparr>Position.symbol = s, quantity = 0, avg_price = 0\<rparr>);
         h2 \<leftarrow> list_append h1 l new_p;
         Some (h2, new_p)
       }
   }"

text \<open>\<^verbatim>\<open>state.history.append(Trade(...))\<close>.\<close>

definition append_trade :: "heap \<Rightarrow> addr \<Rightarrow> Trade \<Rightarrow> heap option" where
  "append_trade h state t = do {
     (_, _, hl) \<leftarrow> read_state h state;
     let (h1, a) = alloc h (TradeObject t);
     list_append h1 hl a
   }"

text \<open>
  Lines 23 to 41 of \<^verbatim>\<open>execute_trade\<close>, on the object that the local name \<^verbatim>\<open>state\<close> refers to
  after line 22. The result is the store afterwards with the raised error or the returned
  reference; a raise leaves the store as the statements before it made it.
\<close>

definition trade_in_place ::
  "heap \<Rightarrow> addr \<Rightarrow> string \<Rightarrow> string \<Rightarrow> real \<Rightarrow> real \<Rightarrow> string \<Rightarrow> (heap \<times> (error + addr)) option" where
  "trade_in_place h state symb sd qty prc tm =
    (if sd = ''buy'' then do {
       let cost = qty * prc;
       (c, pl, _) \<leftarrow> read_state h state;
       if c < cost then Some (h, Inl (ValueError ''Insufficient cash''))
       else do {
         h \<leftarrow> set_cash h state (c - cost);
         (h, pos) \<leftarrow> ensure_position_ref h pl symb;
         p \<leftarrow> read_position h pos;
         let new_qty = Position.quantity p + qty;
         h \<leftarrow> set_position h pos
                (p\<lparr>avg_price := (avg_price p * Position.quantity p + prc * qty)
                                   / max new_qty (1 / 10 ^ 9)\<rparr>);
         p \<leftarrow> read_position h pos;
         h \<leftarrow> set_position h pos (p\<lparr>Position.quantity := new_qty\<rparr>);
         h \<leftarrow> append_trade h state
                \<lparr>Trade.symbol = symb, side = sd, quantity = qty, price = prc, time = tm\<rparr>;
         Some (h, Inr state)
       }
     }
     else do {
       (_, pl, _) \<leftarrow> read_state h state;
       (h, pos) \<leftarrow> ensure_position_ref h pl symb;
       p \<leftarrow> read_position h pos;
       if Position.quantity p < qty then Some (h, Inl (ValueError ''Insufficient shares''))
       else do {
         (c, _, _) \<leftarrow> read_state h state;
         h \<leftarrow> set_cash h state (c + qty * prc);
         p \<leftarrow> read_position h pos;
         h \<leftarrow> set_position h pos (p\<lparr>Position.quantity := Position.quantity p - qty\<rparr>);
         p \<leftarrow> read_position h pos;
         h \<leftarrow> (if Position.quantity p = 0 then set_position h pos (p\<lparr>avg_price := 0\<rparr>)
                else Some h);
         h \<leftarrow> append_trade h state
                \<lparr>Trade.symbol = symb, side = sd, quantity = qty, price = prc, time = tm\<rparr>;
         Some (h, Inr state)
       }
     })"

text \<open>
  \<^verbatim>\<open>execute_trade\<close> with its first line: the local name is bound to a state built from the
  dump of the argument.
\<close>

definition execute_trade_heap ::
  "heap \<Rightarrow> addr \<Rightarrow> string \<Rightarrow> string \<Rightarrow> real \<Rightarrow> real \<Rightarrow> string \<Rightarrow> (heap \<times> (error + addr)) option" where
  "execute_trade_heap h0 r symb sd qty prc tm = do {
     dump \<leftarrow> model_dump h0 r;
     let (h, state) = construct h0 dump;
     trade_in_place h state symb sd qty prc tm
   }"

text \<open>
  A state object with the value \<open>v\<close> whose own objects all lie at or above \<open>n\<close>, with no
  position object shared between two entries of its list.
\<close>

definition owns ::
  "nat \<Rightarrow> heap \<Rightarrow> addr \<Rightarrow> addr \<Rightarrow> addr \<Rightarrow> addr list \<Rightarrow> addr list \<Rightarrow> PortfolioState \<Rightarrow> bool" where
  "owns n h st pl hl pas tas v \<longleftrightarrow>
     read_state h st = Some (cash v, pl, hl) \<and>
     read_list h pl = Some pas \<and> read_list h hl = Some tas \<and>
     read_all (read_position h) pas = Some (positions v) \<and>
     read_all (read_trade h) tas = Some (history v) \<and>
     distinct pas \<and> pl \<noteq> hl \<and> n \<le> st \<and> n \<le> pl \<and> n \<le> hl \<and>
     list_all (\<lambda>a. n \<le> a) pas \<and> list_all (\<lambda>a. n \<le> a) tas"

text \<open>A store with one state: 100 in cash, 5 of X at 10, no history.\<close>

definition example_heap :: heap where
  "example_heap =
     [PositionObject \<lparr>Position.symbol = ''X'', quantity = 5, avg_price = 10\<rparr>,
      ListObject [0], ListObject [], StateObject 100 1 2]"

section \<open>Properties\<close>

subsection \<open>Lookup of positions\<close>

lemma find_position_less: "find_position ps s = Some i \<Longrightarrow> i < length ps"
  by (induction ps arbitrary: i) (auto split: if_splits option.splits)

lemma find_position_symbol: "find_position ps s = Some i \<Longrightarrow> Position.symbol (ps ! i) = s"
  by (induction ps arbitrary: i) (auto split: if_splits option.splits)

lemma find_position_append:
  "find_position (ps @ [p]) s =
     (case find_position ps s of Some i \<Rightarrow> Some i
      | None \<Rightarrow> if Position.symbol p = s then Some (length ps) else None)"
  by (induction ps) (auto split: option.splits)

lemma find_position_update:
  "i < length ps \<Longrightarrow> Position.symbol p = Position.symbol (ps ! i) \<Longrightarrow>
   find_position (ps[i := p]) s = find_position ps s"
proof (induction ps arbitrary: i)
  case Nil then show ?case by simp
next
  case (Cons a ps)
  then show ?case by (cases i) (auto split: option.splits)
qed

lemma ensure_position_cases:
  "ensure_position ps s = (ps', i) \<Longrightarrow>
   i < length ps' \<and> Position.symbol (ps' ! i) = s \<and> find_position ps' s = Some i \<and>
   ps' ! i = (case position_of ps s of
                None \<Rightarrow> \<lparr>Position.symbol = s, quantity = 0, avg_price = 0\<rparr> | Some p \<Rightarrow> p) \<and>
   set ps' \<subseteq> insert \<lparr>Position.symbol = s, quantity = 0, avg_price = 0\<rparr> (set ps) \<and>
   (\<forall>s'. s' \<noteq> s \<longrightarrow> position_of ps' s' = position_of ps s')"
  by (auto simp: ensure_position_def held_def position_of_def find_position_append nth_append
      find_position_less find_position_symbol split: option.splits if_splits)

lemma ensure_position_less: "ensure_position ps s = (ps', i) \<Longrightarrow> i < length ps'"
  and ensure_position_symbol: "ensure_position ps s = (ps', i) \<Longrightarrow> Position.symbol (ps' ! i) = s"
  and ensure_position_find: "ensure_position ps s = (ps', i) \<Longrightarrow> find_position ps' s = Some i"
  and ensure_position_nth: "ensure_position ps s = (ps', i) \<Longrightarrow>
     ps' ! i = (case position_of ps s of
                None \<Rightarrow> \<lparr>Position.symbol = s, quantity = 0, avg_price = 0\<rparr> | Some p \<Rightarrow> p)"
  and ensure_position_set: "ensure_position ps s = (ps', i) \<Longrightarrow>
     set ps' \<subseteq> insert \<lparr>Position.symbol = s, quantity = 0, avg_price = 0\<rparr> (set ps)"
  and ensure_position_other: "ensure_position ps s = (ps', i) \<Longrightarrow> s' \<noteq> s \<Longrightarrow>
     position_of ps' s' = position_of ps s'"
  using ensure_position_cases [of ps s ps' i] by blast+

lemma ensure_position_quantity:
  "ensure_position ps s = (ps', i) \<Longrightarrow> Position.quantity (ps' ! i) = held ps s"
  by (simp add: ensure_position_nth held_def split: option.splits)

lemma ensure_position_avg:
  "ensure_position ps s = (ps', i) \<Longrightarrow> avg_price (ps' ! i) = avg_cost ps s"
  by (simp add: ensure_position_nth avg_cost_def split: option.splits)

lemma position_of_update:
  "i < length ps \<Longrightarrow> Position.symbol p = s \<Longrightarrow> find_position ps s = Some i \<Longrightarrow>
   position_of (ps[i := p]) s' = (if s' = s then Some p else position_of ps s')"
proof -
  assume a: "i < length ps" "Position.symbol p = s" "find_position ps s = Some i"
  then have e: "Position.symbol p = Position.symbol (ps ! i)"
    by (simp add: find_position_symbol)
  have f: "find_position (ps[i := p]) s' = find_position ps s'"
    using a(1) e by (rule find_position_update)
  show ?thesis
  proof (cases "s' = s")
    case True
    then show ?thesis using a f by (simp add: position_of_def)
  next
    case False
    have "\<And>j. find_position ps s' = Some j \<Longrightarrow> j \<noteq> i"
      using False a(2) e find_position_symbol by metis
    then show ?thesis using False f
      by (auto simp: position_of_def split: option.splits)
  qed
qed

lemma Position_eqI:
  "Position.symbol p = s \<Longrightarrow> Position.quantity p = q \<Longrightarrow> avg_price p = a \<Longrightarrow>
   (p :: Position) = \<lparr>Position.symbol = s, quantity = q, avg_price = a\<rparr>"
  by (cases p) simp

subsection \<open>One call\<close>

text \<open>What a returning call has done, for a buy and for any other side.\<close>

lemma execute_trade_buy_Inr:
  assumes "execute_trade state symb ''buy'' qty prc tm = Inr s'"
  shows "\<exists>ps i p'. ensure_position (positions state) symb = (ps, i) \<and>
           positions s' = ps[i := p'] \<and> Position.symbol p' = symb \<and>
           Position.quantity p' = Position.quantity (ps ! i) + qty \<and>
           avg_price p' = (avg_price (ps ! i) * Position.quantity (ps ! i) + prc * qty)
                            / max (Position.quantity (ps ! i) + qty) (1 / 10 ^ 9) \<and>
           \<not> cash state < qty * prc \<and> cash s' = cash state - qty * prc \<and>
           history s' = history state @
             [\<lparr>Trade.symbol = symb, side = ''buy'', quantity = qty, price = prc, time = tm\<rparr>]"
proof -
  obtain ps i where e: "ensure_position (positions state) symb = (ps, i)"
    by (cases "ensure_position (positions state) symb")
  have "Position.symbol (ps ! i) = symb"
    using e by (rule ensure_position_symbol)
  with assms e show ?thesis
    by (auto simp: execute_trade_def Let_def split: if_splits)
qed

lemma execute_trade_sell_Inr:
  assumes "execute_trade state symb sd qty prc tm = Inr s'" and "sd \<noteq> ''buy''"
  shows "\<exists>ps i p'. ensure_position (positions state) symb = (ps, i) \<and>
           positions s' = ps[i := p'] \<and> Position.symbol p' = symb \<and>
           Position.quantity p' = Position.quantity (ps ! i) - qty \<and>
           avg_price p' = (if Position.quantity (ps ! i) - qty = 0 then 0 else avg_price (ps ! i)) \<and>
           \<not> Position.quantity (ps ! i) < qty \<and> cash s' = cash state + qty * prc \<and>
           history s' = history state @
             [\<lparr>Trade.symbol = symb, side = sd, quantity = qty, price = prc, time = tm\<rparr>]"
proof -
  obtain ps i where e: "ensure_position (positions state) symb = (ps, i)"
    by (cases "ensure_position (positions state) symb")
  have "Position.symbol (ps ! i) = symb"
    using e by (rule ensure_position_symbol)
  with assms e show ?thesis
    by (auto simp: execute_trade_def Let_def split: if_splits)
qed

text \<open>When a call returns and what it raises otherwise.\<close>

lemma execute_trade_buy_iff:
  "(\<exists>s'. execute_trade state symb ''buy'' qty prc tm = Inr s') \<longleftrightarrow> \<not> cash state < qty * prc"
  "(execute_trade state symb ''buy'' qty prc tm = Inl e) \<longleftrightarrow>
     cash state < qty * prc \<and> e = ValueError ''Insufficient cash''"
  by (auto simp: execute_trade_def Let_def split: prod.splits)

lemma execute_trade_sell_iff:
  assumes "sd \<noteq> ''buy''"
  shows "(\<exists>s'. execute_trade state symb sd qty prc tm = Inr s') \<longleftrightarrow>
           \<not> held (positions state) symb < qty"
    and "(execute_trade state symb sd qty prc tm = Inl e) \<longleftrightarrow>
           held (positions state) symb < qty \<and> e = ValueError ''Insufficient shares''"
proof -
  obtain ps i where e: "ensure_position (positions state) symb = (ps, i)"
    by (cases "ensure_position (positions state) symb")
  have q: "Position.quantity (ps ! i) = held (positions state) symb"
    using e by (rule ensure_position_quantity)
  show "(\<exists>s'. execute_trade state symb sd qty prc tm = Inr s') \<longleftrightarrow>
           \<not> held (positions state) symb < qty"
    using assms e q by (auto simp: execute_trade_def Let_def)
  show "(execute_trade state symb sd qty prc tm = Inl e) \<longleftrightarrow>
           held (positions state) symb < qty \<and> e = ValueError ''Insufficient shares''"
    using assms e q by (auto simp: execute_trade_def Let_def)
qed

text \<open>The position of every symbol after a returning call.\<close>

lemma buy_position:
  assumes "execute_trade state symb ''buy'' qty prc tm = Inr s'"
  shows "position_of (positions s') s =
           (if s = symb then
              Some \<lparr>Position.symbol = symb,
                    quantity = held (positions state) symb + qty,
                    avg_price = (avg_cost (positions state) symb * held (positions state) symb + prc * qty)
                                 / max (held (positions state) symb + qty) (1 / 10 ^ 9)\<rparr>
            else position_of (positions state) s)"
proof -
  from execute_trade_buy_Inr [OF assms] obtain ps i p' where
    e: "ensure_position (positions state) symb = (ps, i)" and
    p: "positions s' = ps[i := p']" "Position.symbol p' = symb"
       "Position.quantity p' = Position.quantity (ps ! i) + qty"
       "avg_price p' = (avg_price (ps ! i) * Position.quantity (ps ! i) + prc * qty)
                            / max (Position.quantity (ps ! i) + qty) (1 / 10 ^ 9)"
    by blast
  have "position_of (positions s') s = (if s = symb then Some p' else position_of ps s)"
    unfolding p(1) using ensure_position_less [OF e] p(2) ensure_position_find [OF e]
    by (rule position_of_update)
  moreover have "p' = \<lparr>Position.symbol = symb,
                    quantity = held (positions state) symb + qty,
                    avg_price = (avg_cost (positions state) symb * held (positions state) symb + prc * qty)
                                 / max (held (positions state) symb + qty) (1 / 10 ^ 9)\<rparr>"
    using p(2-4) ensure_position_quantity [OF e] ensure_position_avg [OF e]
    by (intro Position_eqI) simp_all
  ultimately show ?thesis
    using ensure_position_other [OF e] by simp
qed

lemma sell_position:
  assumes "execute_trade state symb sd qty prc tm = Inr s'" and "sd \<noteq> ''buy''"
  shows "position_of (positions s') s =
           (if s = symb then
              Some \<lparr>Position.symbol = symb,
                    quantity = held (positions state) symb - qty,
                    avg_price = (if held (positions state) symb - qty = 0 then 0
                                 else avg_cost (positions state) symb)\<rparr>
            else position_of (positions state) s)"
proof -
  from execute_trade_sell_Inr [OF assms] obtain ps i p' where
    e: "ensure_position (positions state) symb = (ps, i)" and
    p: "positions s' = ps[i := p']" "Position.symbol p' = symb"
       "Position.quantity p' = Position.quantity (ps ! i) - qty"
       "avg_price p' = (if Position.quantity (ps ! i) - qty = 0 then 0 else avg_price (ps ! i))"
    by blast
  have "position_of (positions s') s = (if s = symb then Some p' else position_of ps s)"
    unfolding p(1) using ensure_position_less [OF e] p(2) ensure_position_find [OF e]
    by (rule position_of_update)
  moreover have "p' = \<lparr>Position.symbol = symb,
                    quantity = held (positions state) symb - qty,
                    avg_price = (if held (positions state) symb - qty = 0 then 0
                                 else avg_cost (positions state) symb)\<rparr>"
    using p(2-4) ensure_position_quantity [OF e] ensure_position_avg [OF e]
    by (intro Position_eqI) simp_all
  ultimately show ?thesis
    using ensure_position_other [OF e] by simp
qed

lemma execute_trade_cash:
  assumes "execute_trade state symb sd qty prc tm = Inr s'"
  shows "cash s' = (if sd = ''buy'' then cash state - qty * prc else cash state + qty * prc)"
  using assms execute_trade_buy_Inr [of state symb qty prc tm s']
    execute_trade_sell_Inr [of state symb sd qty prc tm s'] by auto

lemma execute_trade_history:
  assumes "execute_trade state symb sd qty prc tm = Inr s'"
  shows "history s' = history state @
           [\<lparr>Trade.symbol = symb, side = sd, quantity = qty, price = prc, time = tm\<rparr>]"
  using assms execute_trade_buy_Inr [of state symb qty prc tm s']
    execute_trade_sell_Inr [of state symb sd qty prc tm s'] by auto

lemma execute_trade_positions_set:
  assumes "execute_trade state symb sd qty prc tm = Inr s'"
  shows "\<exists>p'. position_of (positions s') symb = Some p' \<and>
           set (positions s') \<subseteq>
             insert p' (insert \<lparr>Position.symbol = symb, quantity = 0, avg_price = 0\<rparr>
                         (set (positions state)))"
proof -
  have "\<exists>ps i p'. ensure_position (positions state) symb = (ps, i) \<and>
           positions s' = ps[i := p'] \<and> Position.symbol p' = symb"
    using assms execute_trade_buy_Inr [of state symb qty prc tm s']
      execute_trade_sell_Inr [of state symb sd qty prc tm s'] by blast
  then obtain ps i p' where
    e: "ensure_position (positions state) symb = (ps, i)" and
    p: "positions s' = ps[i := p']" "Position.symbol p' = symb"
    by blast
  have "position_of (positions s') symb = (if symb = symb then Some p' else position_of ps symb)"
    unfolding p(1) using ensure_position_less [OF e] p(2) ensure_position_find [OF e]
    by (rule position_of_update)
  moreover have "set (ps[i := p']) \<subseteq> insert p' (set ps)"
    by (rule set_update_subset_insert)
  ultimately show ?thesis
    using ensure_position_set [OF e] p(1) by auto
qed

lemma sell_semantics:
  assumes "sd \<noteq> ''buy''"
  shows "(execute_trade state symb sd qty prc tm = Inl (ValueError ''Insufficient shares'')
            \<longleftrightarrow> held (positions state) symb < qty) \<and>
         ((\<exists>s'. execute_trade state symb sd qty prc tm = Inr s')
            \<longleftrightarrow> \<not> held (positions state) symb < qty) \<and>
         (\<forall>s'. execute_trade state symb sd qty prc tm = Inr s' \<longrightarrow>
            cash s' = cash state + qty * prc \<and>
            held (positions s') symb = held (positions state) symb - qty \<and>
            history s' = history state @
              [\<lparr>Trade.symbol = symb, side = sd, quantity = qty, price = prc, time = tm\<rparr>])"
proof (intro conjI allI impI)
  show "execute_trade state symb sd qty prc tm = Inl (ValueError ''Insufficient shares'')
            \<longleftrightarrow> held (positions state) symb < qty"
    by (simp add: execute_trade_sell_iff(2) [OF assms])
  show "(\<exists>s'. execute_trade state symb sd qty prc tm = Inr s')
            \<longleftrightarrow> \<not> held (positions state) symb < qty"
    using assms by (rule execute_trade_sell_iff(1))
next
  fix s' assume r: "execute_trade state symb sd qty prc tm = Inr s'"
  show "cash s' = cash state + qty * prc"
    using execute_trade_cash [OF r] assms by simp
  show "held (positions s') symb = held (positions state) symb - qty"
    using sell_position [OF r assms, of symb] by (simp add: held_def)
  show "history s' = history state @
          [\<lparr>Trade.symbol = symb, side = sd, quantity = qty, price = prc, time = tm\<rparr>]"
    using r by (rule execute_trade_history)
qed

lemma buy_from_nothing:
  assumes "position_of (positions state) symb = None" and "\<not> cash state < qty * prc"
  shows "\<exists>s'. execute_trade state symb ''buy'' qty prc tm = Inr s' \<and>
           cash s' = cash state - qty * prc \<and>
           position_of (positions s') symb =
             Some \<lparr>Position.symbol = symb, quantity = qty,
                   avg_price = prc * qty / max qty (1 / 10 ^ 9)\<rparr>"
proof -
  obtain s' where r: "execute_trade state symb ''buy'' qty prc tm = Inr s'"
    using execute_trade_buy_iff(1) [of state symb qty prc tm] assms(2) by blast
  have "held (positions state) symb = 0" "avg_cost (positions state) symb = 0"
    using assms(1) by (simp_all add: held_def avg_cost_def)
  then have "position_of (positions s') symb =
             Some \<lparr>Position.symbol = symb, quantity = qty,
                   avg_price = prc * qty / max qty (1 / 10 ^ 9)\<rparr>"
    using buy_position [OF r, of symb] by simp
  then show ?thesis
    using r execute_trade_cash [OF r] by simp
qed

lemma buy_more:
  assumes "position_of (positions state) symb = Some \<lparr>Position.symbol = symb, quantity = q, avg_price = a\<rparr>"
    and "\<not> cash state < qty * prc"
  shows "\<exists>s'. execute_trade state symb ''buy'' qty prc tm = Inr s' \<and>
           cash s' = cash state - qty * prc \<and>
           position_of (positions s') symb =
             Some \<lparr>Position.symbol = symb, quantity = q + qty,
                   avg_price = (a * q + prc * qty) / max (q + qty) (1 / 10 ^ 9)\<rparr>"
proof -
  obtain s' where r: "execute_trade state symb ''buy'' qty prc tm = Inr s'"
    using execute_trade_buy_iff(1) [of state symb qty prc tm] assms(2) by blast
  have "held (positions state) symb = q" "avg_cost (positions state) symb = a"
    using assms(1) by (simp_all add: held_def avg_cost_def)
  then have "position_of (positions s') symb =
             Some \<lparr>Position.symbol = symb, quantity = q + qty,
                   avg_price = (a * q + prc * qty) / max (q + qty) (1 / 10 ^ 9)\<rparr>"
    using buy_position [OF r, of symb] by simp
  then show ?thesis
    using r execute_trade_cash [OF r] by simp
qed

text \<open>The run of the scenario, state by state.\<close>

lemma scenario_trades:
  "successful_trades scenario_start scenario = Some
     [\<lparr>cash = 800, positions = [\<lparr>Position.symbol = ''X'', quantity = 2, avg_price = 100\<rparr>],
       history = take 1 scenario\<rparr>,
      \<lparr>cash = 400, positions = [\<lparr>Position.symbol = ''X'', quantity = 4, avg_price = 150\<rparr>],
       history = take 2 scenario\<rparr>,
      \<lparr>cash = 1000, positions = [\<lparr>Position.symbol = ''X'', quantity = 0, avg_price = 0\<rparr>],
       history = scenario\<rparr>]"
  by (simp add: scenario_def scenario_start_def execute_call_def execute_trade_def ensure_position_def)

subsection \<open>Side values\<close>

text \<open>
  C1. A side that is neither \<^verbatim>\<open>"buy"\<close> nor \<^verbatim>\<open>"sell"\<close> is to be rejected with an invalid-side
  error, with nothing updated. The source has no such error: the \<^verbatim>\<open>else\<close> branch takes every
  side other than \<^verbatim>\<open>"buy"\<close>. With 5 units of X held, the side \<^verbatim>\<open>"hold"\<close> returns a state with
  the cash raised, the position lowered and a \<^verbatim>\<open>"hold"\<close> record in the history.
\<close>

theorem invalid_side_accepted:
  "execute_trade
     \<lparr>cash = 0, positions = [\<lparr>Position.symbol = ''X'', quantity = 5, avg_price = 10\<rparr>], history = []\<rparr>
     ''X'' ''hold'' 1 10 ''t'' =
   Inr \<lparr>cash = 10, positions = [\<lparr>Position.symbol = ''X'', quantity = 4, avg_price = 10\<rparr>],
        history = [\<lparr>Trade.symbol = ''X'', side = ''hold'', quantity = 1, price = 10, time = ''t''\<rparr>]\<rparr>"
  by (simp add: execute_trade_def ensure_position_def)



subsection \<open>Buying and selling\<close>





subsection \<open>Average cost\<close>

lemma two_lot_average:
  fixes q1 q2 p1 p2 e :: real
  assumes "0 < q1" "0 < q2" "0 < p1" "0 < p2" "0 < e"
  shows "(p1 * q1 / max q1 e * q1 + p2 * q2) / max (q1 + q2) e = (q1 * p1 + q2 * p2) / (q1 + q2)
         \<longleftrightarrow> e \<le> q1"
proof (cases "e \<le> q1")
  case True
  then have "max q1 e = q1" "max (q1 + q2) e = q1 + q2"
    using assms by simp_all
  then show ?thesis
    using True assms by (simp add: mult.commute)
next
  case False
  then have m: "max q1 e = e" by simp
  have lt: "p1 * q1 / e * q1 < q1 * p1"
  proof -
    have "q1 / e < 1" using False assms by simp
    then have "(p1 * q1) * (q1 / e) < (p1 * q1) * 1"
      using assms by (intro mult_strict_left_mono) simp_all
    then show ?thesis by (simp add: mult.commute)
  qed
  have pos: "0 < q1 * p1 + q2 * p2"
    using assms by (simp add: add_pos_pos)
  have "(p1 * q1 / e * q1 + p2 * q2) / max (q1 + q2) e < (q1 * p1 + q2 * p2) / (q1 + q2)"
  proof -
    have "(p1 * q1 / e * q1 + p2 * q2) / max (q1 + q2) e < (q1 * p1 + q2 * p2) / max (q1 + q2) e"
      using lt assms by (intro divide_strict_right_mono) (simp_all add: mult.commute)
    also have "\<dots> \<le> (q1 * p1 + q2 * p2) / (q1 + q2)"
      using pos assms by (intro divide_left_mono) simp_all
    finally show ?thesis .
  qed
  then show ?thesis
    using False m by simp
qed




subsection \<open>History\<close>

lemma execute_call_history:
  "execute_call state t = Inr s' \<Longrightarrow> history s' = history state @ [t]"
  unfolding execute_call_def by (drule execute_trade_history) simp

lemma retained_state_history:
  "\<exists>hs. history (retained_state state ts) = history state @ hs"
proof (induction ts arbitrary: state)
  case Nil
  show ?case by simp
next
  case (Cons t ts)
  show ?case
  proof (cases "execute_call state t")
    case (Inl e)
    then show ?thesis using Cons.IH [of state] by simp
  next
    case (Inr s')
    from Cons.IH [of s'] obtain hs where "history (retained_state s' ts) = history s' @ hs" ..
    then show ?thesis using Inr execute_call_history [OF Inr] by simp
  qed
qed

lemma successful_trades_history:
  "successful_trades state ts = Some ss \<Longrightarrow>
   length ss = length ts \<and> (\<forall>k < length ts. history (ss ! k) = history state @ take (Suc k) ts)"
proof (induction ts arbitrary: state ss)
  case Nil
  then show ?case by simp
next
  case (Cons t ts)
  from Cons.prems obtain s' ss' where
    s: "execute_call state t = Inr s'" "successful_trades s' ts = Some ss'" "ss = s' # ss'"
    by (auto split: sum.splits option.splits)
  note ih = Cons.IH [OF s(2)]
  have h: "history s' = history state @ [t]"
    using s(1) by (rule execute_call_history)
  show ?case
  proof (intro conjI allI impI)
    show "length ss = length (t # ts)" using ih s(3) by simp
    fix k assume "k < length (t # ts)"
    then show "history (ss ! k) = history state @ take (Suc k) (t # ts)"
      using ih s(3) h by (cases k) simp_all
  qed
qed

text \<open>
  C9. A call that returns has appended exactly one record to the history, the one made of
  its symbol, side, quantity, price and time, after the entries that were there, which are
  unchanged and in their order. Over any sequence of calls, failing ones included, the
  history the caller holds only grows by appending, so its length never decreases; when
  every call returns, the history after the \<open>k\<close>-th call is the first history followed
  by the first \<open>k\<close> calls in call order.
\<close>

theorem history_append_only:
  "(\<forall>s'. execute_trade state symb sd qty prc tm = Inr s' \<longrightarrow>
      history s' = history state @
        [\<lparr>Trade.symbol = symb, side = sd, quantity = qty, price = prc, time = tm\<rparr>] \<and>
      length (history s') = Suc (length (history state))) \<and>
   (\<exists>hs. history (retained_state state ts) = history state @ hs) \<and>
   length (history state) \<le> length (history (retained_state state ts)) \<and>
   (\<forall>ss. successful_trades state ts = Some ss \<longrightarrow>
      length ss = length ts \<and>
      (\<forall>k < length ts. history (ss ! k) = history state @ take (Suc k) ts))"
proof (intro conjI allI impI)
  fix s' assume r: "execute_trade state symb sd qty prc tm = Inr s'"
  show "history s' = history state @
        [\<lparr>Trade.symbol = symb, side = sd, quantity = qty, price = prc, time = tm\<rparr>]"
    using r by (rule execute_trade_history)
  then show "length (history s') = Suc (length (history state))"
    by simp
next
  show "\<exists>hs. history (retained_state state ts) = history state @ hs"
    by (rule retained_state_history)
  then show "length (history state) \<le> length (history (retained_state state ts))"
    by auto
next
  fix ss k assume s: "successful_trades state ts = Some ss"
  show "length ss = length ts"
    using successful_trades_history [OF s] by simp
  assume "k < length ts"
  then show "history (ss ! k) = history state @ take (Suc k) ts"
    using successful_trades_history [OF s] by simp
qed

theorem history_append_only_witness:
  "(\<exists>s'. execute_trade scenario_start ''X'' ''buy'' 2 100 ''t1'' = Inr s' \<and>
      history s' = [\<lparr>Trade.symbol = ''X'', side = ''buy'', quantity = 2, price = 100, time = ''t1''\<rparr>] \<and>
      length (history s') = Suc (length (history scenario_start))) \<and>
   length (history scenario_start) \<le> length (history (retained_state scenario_start scenario)) \<and>
   (\<exists>ss. successful_trades scenario_start scenario = Some ss \<and> length ss = 3 \<and>
      history (ss ! 2) = scenario)"
proof -
  note h = history_append_only [of scenario_start "''X''" "''buy''" 2 100 "''t1''" scenario]
  have "\<not> cash scenario_start < 2 * 100"
    by (simp add: scenario_start_def)
  then obtain s' where s: "execute_trade scenario_start ''X'' ''buy'' 2 100 ''t1'' = Inr s'"
    using execute_trade_buy_iff(1) [of scenario_start "''X''" 2 100 "''t1''"] by blast
  have e: "history scenario_start = []"
    by (simp add: scenario_start_def)
  have a: "history s' = [\<lparr>Trade.symbol = ''X'', side = ''buy'', quantity = 2, price = 100, time = ''t1''\<rparr>] \<and>
      length (history s') = Suc (length (history scenario_start))"
    using h s e by simp
  have b: "length (history scenario_start) \<le> length (history (retained_state scenario_start scenario))"
    using h by blast
  obtain ss where ss: "successful_trades scenario_start scenario = Some ss"
    using scenario_trades by blast
  have l: "length scenario = 3"
    by (simp add: scenario_def)
  have "length ss = length scenario \<and>
      (\<forall>k < length scenario. history (ss ! k) = history scenario_start @ take (Suc k) scenario)"
    using h ss by blast
  then have "length ss = 3 \<and> history (ss ! 2) = scenario"
    using l e by simp
  with s a b ss show ?thesis by blast
qed

subsection \<open>Solvency and inventory\<close>

lemma execute_trade_cash_nonneg:
  assumes "execute_trade state symb sd qty prc tm = Inr s'"
    and "0 \<le> cash state" and "0 < qty" and "0 < prc"
  shows "0 \<le> cash s'"
proof (cases "sd = ''buy''")
  case True
  with assms(1) have "\<not> cash state < qty * prc" "cash s' = cash state - qty * prc"
    using execute_trade_buy_Inr [of state symb qty prc tm s'] by auto
  then show ?thesis by simp
next
  case False
  have "0 \<le> qty * prc"
    using assms(3,4) by simp
  moreover have "cash s' = cash state + qty * prc"
    using execute_trade_cash [OF assms(1)] False by simp
  ultimately show ?thesis
    using assms(2) by simp
qed



lemma execute_trade_quantities_nonneg:
  assumes "execute_trade state symb sd qty prc tm = Inr s'"
    and "nonneg_quantities state" and "0 < qty"
  shows "nonneg_quantities s'"
proof -
  have n: "\<And>p. p \<in> set (positions state) \<Longrightarrow> 0 \<le> Position.quantity p"
    using assms(2) by (simp add: nonneg_quantities_def list_all_iff)
  have h: "0 \<le> held (positions state) symb"
    using n find_position_less [of "positions state" symb]
    by (auto simp: held_def position_of_def split: option.splits)
  obtain p' where p: "position_of (positions s') symb = Some p'"
    "set (positions s') \<subseteq>
       insert p' (insert \<lparr>Position.symbol = symb, quantity = 0, avg_price = 0\<rparr>
                   (set (positions state)))"
    using execute_trade_positions_set [OF assms(1)] by blast
  have "0 \<le> Position.quantity p'"
  proof (cases "sd = ''buy''")
    case True
    then show ?thesis
      using buy_position [of state symb qty prc tm s' symb] assms(1,3) p(1) h by auto
  next
    case False
    have "\<not> held (positions state) symb < qty"
      using execute_trade_sell_iff(1) [OF False, of state symb qty prc tm] assms(1) by blast
    then show ?thesis
      using sell_position [OF assms(1) False, of symb] p(1) by auto
  qed
  then have "\<And>p. p \<in> set (positions s') \<Longrightarrow> 0 \<le> Position.quantity p"
    using p(2) n by auto
  then show ?thesis
    by (simp add: nonneg_quantities_def list_all_iff)
qed



subsection \<open>Basis reset\<close>

lemma execute_trade_basis_reset:
  assumes "execute_trade state symb sd qty prc tm = Inr s'"
    and "basis_reset state" and "nonneg_quantities state" and "0 < qty"
  shows "basis_reset s'"
proof -
  have b: "\<And>p. p \<in> set (positions state) \<Longrightarrow> Position.quantity p = 0 \<Longrightarrow> avg_price p = 0"
    using assms(2) by (simp add: basis_reset_def list_all_iff)
  have n: "\<And>p. p \<in> set (positions state) \<Longrightarrow> 0 \<le> Position.quantity p"
    using assms(3) by (simp add: nonneg_quantities_def list_all_iff)
  have h: "0 \<le> held (positions state) symb"
    using n find_position_less [of "positions state" symb]
    by (auto simp: held_def position_of_def split: option.splits)
  obtain p' where p: "position_of (positions s') symb = Some p'"
    "set (positions s') \<subseteq>
       insert p' (insert \<lparr>Position.symbol = symb, quantity = 0, avg_price = 0\<rparr>
                   (set (positions state)))"
    using execute_trade_positions_set [OF assms(1)] by blast
  have "Position.quantity p' = 0 \<longrightarrow> avg_price p' = 0"
  proof (cases "sd = ''buy''")
    case True
    then have "Position.quantity p' = held (positions state) symb + qty"
      using buy_position [of state symb qty prc tm s' symb] assms(1) p(1) by auto
    then have "0 < Position.quantity p'"
      using h assms(4) by simp
    then show ?thesis by simp
  next
    case False
    show ?thesis
      using sell_position [OF assms(1) False, of symb] p(1) by auto
  qed
  then have "\<And>p. p \<in> set (positions s') \<Longrightarrow> Position.quantity p = 0 \<Longrightarrow> avg_price p = 0"
    using p(2) b by auto
  then show ?thesis
    by (simp add: basis_reset_def list_all_iff)
qed

lemma successful_trades_basis_reset:
  "basis_reset state \<Longrightarrow> nonneg_quantities state \<Longrightarrow> \<forall>t \<in> set ts. 0 < Trade.quantity t \<Longrightarrow>
   successful_trades state ts = Some ss \<Longrightarrow> \<forall>s \<in> set ss. basis_reset s"
proof (induction ts arbitrary: state ss)
  case Nil
  then show ?case by simp
next
  case (Cons t ts)
  from Cons.prems(4) obtain s' ss' where
    s: "execute_call state t = Inr s'" "successful_trades s' ts = Some ss'" "ss = s' # ss'"
    by (auto split: sum.splits option.splits)
  have q: "0 < Trade.quantity t"
    using Cons.prems(3) by simp
  have c: "basis_reset s'"
    using s(1) Cons.prems(1,2) q unfolding execute_call_def
    by (rule execute_trade_basis_reset)
  have d: "nonneg_quantities s'"
    using s(1) Cons.prems(2) q unfolding execute_call_def
    by (rule execute_trade_quantities_nonneg)
  have "\<forall>s \<in> set ss'. basis_reset s"
    using c d Cons.prems(3) s(2) by (intro Cons.IH) simp_all
  with c s(3) show ?case by simp
qed

lemma sell_all_then_buy:
  assumes "held (positions state) symb = qty"
  shows "\<exists>s1. execute_trade state symb ''sell'' qty prc tm = Inr s1 \<and>
           position_of (positions s1) symb =
             Some \<lparr>Position.symbol = symb, quantity = 0, avg_price = 0\<rparr> \<and>
           (\<forall>q p t. 1 / 10 ^ 9 \<le> q \<and> q * p \<le> cash s1 \<longrightarrow>
              (\<exists>s2. execute_trade s1 symb ''buy'' q p t = Inr s2 \<and>
                 position_of (positions s2) symb =
                   Some \<lparr>Position.symbol = symb, quantity = q, avg_price = p\<rparr>))"
proof -
  have n: "''sell'' \<noteq> ''buy''" by simp
  obtain s1 where r: "execute_trade state symb ''sell'' qty prc tm = Inr s1"
    using execute_trade_sell_iff(1) [OF n, of state symb qty prc tm] assms by auto
  have z: "position_of (positions s1) symb =
             Some \<lparr>Position.symbol = symb, quantity = 0, avg_price = 0\<rparr>"
    using sell_position [OF r n, of symb] assms by simp
  have "\<exists>s2. execute_trade s1 symb ''buy'' q p t = Inr s2 \<and>
          position_of (positions s2) symb =
            Some \<lparr>Position.symbol = symb, quantity = q, avg_price = p\<rparr>"
    if "1 / 10 ^ 9 \<le> q \<and> q * p \<le> cash s1" for q p t
  proof -
    have c: "\<not> cash s1 < q * p" using that by simp
    have "max q (1 / 10 ^ 9) = q" "q \<noteq> 0" using that by simp_all
    then show ?thesis
      using buy_more [OF z c, of t] by auto
  qed
  then show ?thesis
    using r z by blast
qed




section \<open>The argument is not mutated\<close>

subsection \<open>Reading and writing the store\<close>

lemma read_all_Some_iff:
  "read_all f as = Some xs \<longleftrightarrow> length xs = length as \<and> (\<forall>i < length as. f (as ! i) = Some (xs ! i))"
proof (induction as arbitrary: xs)
  case Nil
  then show ?case by auto
next
  case (Cons a as)
  show ?case
  proof (cases xs)
    case Nil
    then show ?thesis by (auto split: Option.bind_splits)
  next
    case (Cons y ys)
    then show ?thesis
      using Cons.IH [of ys]
      by (auto simp: nth_Cons less_Suc_eq_0_disj split: Option.bind_splits nat.splits)
  qed
qed

lemma read_all_cong:
  "(\<And>a. a \<in> set as \<Longrightarrow> f a = g a) \<Longrightarrow> read_all f as = read_all g as"
  by (induction as) simp_all

lemma read_all_snoc:
  "read_all f as = Some xs \<Longrightarrow> f a = Some x \<Longrightarrow> read_all f (as @ [a]) = Some (xs @ [x])"
  by (induction as arbitrary: xs) (auto split: Option.bind_splits)

lemma read_all_update:
  assumes "read_all f as = Some xs" and "distinct as" and "i < length as"
    and "g (as ! i) = Some y" and "\<And>a. a \<noteq> as ! i \<Longrightarrow> g a = f a"
  shows "read_all g as = Some (xs[i := y])"
proof -
  have "g (as ! j) = Some (xs[i := y] ! j)" if "j < length as" for j
  proof (cases "j = i")
    case True
    then show ?thesis
      using assms(1,3,4) by (simp add: read_all_Some_iff)
  next
    case False
    then have "as ! j \<noteq> as ! i"
      using assms(2,3) that by (simp add: nth_eq_iff_index_eq)
    then show ?thesis
      using assms(1,5) False that by (simp add: read_all_Some_iff)
  qed
  then show ?thesis
    using assms(1) by (simp add: read_all_Some_iff)
qed

lemmas read_defs = read_state_def read_list_def read_position_def read_trade_def lookup_def

lemma reads_bound:
  "read_state h a = Some x \<Longrightarrow> a < length h"
  "read_list h a = Some as \<Longrightarrow> a < length h"
  "read_position h a = Some p \<Longrightarrow> a < length h"
  "read_trade h a = Some t \<Longrightarrow> a < length h"
  by (auto simp: read_defs split: if_splits)

lemma reads_update:
  "read_state (h[b := ob]) a =
     (if a = b \<and> b < length h then (case ob of StateObject c pl hl \<Rightarrow> Some (c, pl, hl) | _ \<Rightarrow> None)
      else read_state h a)"
  "read_list (h[b := ob]) a =
     (if a = b \<and> b < length h then (case ob of ListObject as \<Rightarrow> Some as | _ \<Rightarrow> None)
      else read_list h a)"
  "read_position (h[b := ob]) a =
     (if a = b \<and> b < length h then (case ob of PositionObject p \<Rightarrow> Some p | _ \<Rightarrow> None)
      else read_position h a)"
  "read_trade (h[b := ob]) a =
     (if a = b \<and> b < length h then (case ob of TradeObject t \<Rightarrow> Some t | _ \<Rightarrow> None)
      else read_trade h a)"
  by (auto simp: read_defs)

lemma reads_append:
  "read_state (h @ [ob]) a =
     (if a = length h then (case ob of StateObject c pl hl \<Rightarrow> Some (c, pl, hl) | _ \<Rightarrow> None)
      else read_state h a)"
  "read_list (h @ [ob]) a =
     (if a = length h then (case ob of ListObject as \<Rightarrow> Some as | _ \<Rightarrow> None)
      else read_list h a)"
  "read_position (h @ [ob]) a =
     (if a = length h then (case ob of PositionObject p \<Rightarrow> Some p | _ \<Rightarrow> None)
      else read_position h a)"
  "read_trade (h @ [ob]) a =
     (if a = length h then (case ob of TradeObject t \<Rightarrow> Some t | _ \<Rightarrow> None)
      else read_trade h a)"
  by (auto simp: read_defs nth_append)

lemma reads_disjoint:
  "read_state h a = Some x \<Longrightarrow> read_list h a = None \<and> read_position h a = None \<and> read_trade h a = None"
  "read_list h a = Some as \<Longrightarrow> read_state h a = None \<and> read_position h a = None \<and> read_trade h a = None"
  "read_position h a = Some p \<Longrightarrow> read_state h a = None \<and> read_list h a = None \<and> read_trade h a = None"
  "read_trade h a = Some t \<Longrightarrow> read_state h a = None \<and> read_list h a = None \<and> read_position h a = None"
  by (auto simp: read_defs split: if_splits option.splits object.splits)

subsection \<open>The copy\<close>

lemma alloc_all_eq: "alloc_all h obs = (h @ obs, [length h ..< length h + length obs])"
proof (induction obs arbitrary: h)
  case Nil
  show ?case by simp
next
  case (Cons ob obs)
  have "[length h ..< length h + length (ob # obs)] =
          length h # [Suc (length h) ..< Suc (length h) + length obs]"
    by (subst upt_conv_Cons) simp_all
  then show ?case
    by (simp add: alloc_def Cons.IH)
qed

lemma read_all_upt:
  "read_all f [n ..< n + length xs] = Some xs \<longleftrightarrow> (\<forall>i < length xs. f (n + i) = Some (xs ! i))"
  by (simp add: read_all_Some_iff)

lemma construct_owns:
  assumes "construct h v = (h', st)"
  shows "take (length h) h' = h \<and> length h \<le> st \<and>
         (\<exists>pl hl pas tas. owns (length h) h' st pl hl pas tas v)"
proof -
  define n where "n = length h"
  define P where "P = map PositionObject (positions v)"
  define T where "T = map TradeObject (history v)"
  define pl where "pl = n + length P"
  define hl where "hl = Suc pl + length T"
  define pas where "pas = [n ..< n + length (positions v)]"
  define tas where "tas = [Suc pl ..< Suc pl + length (history v)]"
  have c: "construct h v = (h @ P @ [ListObject pas] @ T @ [ListObject tas, StateObject (cash v) pl hl],
                            Suc hl)"
    by (simp add: construct_def alloc_all_eq alloc_def n_def P_def T_def pl_def hl_def pas_def tas_def)
  then have h': "h' = h @ P @ [ListObject pas] @ T @ [ListObject tas, StateObject (cash v) pl hl]"
    and st: "st = Suc hl"
    using assms by simp_all
  have len: "length h' = Suc (Suc hl)"
    by (simp add: h' hl_def pl_def n_def)
  have at_P: "h' ! (n + i) = PositionObject (positions v ! i)" if "i < length (positions v)" for i
    using that by (simp add: h' n_def P_def nth_append)
  have at_pl: "h' ! pl = ListObject pas"
    by (simp add: h' pl_def n_def nth_append)
  have at_T: "h' ! Suc (pl + i) = TradeObject (history v ! i)" if "i < length (history v)" for i
    using that by (simp add: h' pl_def n_def T_def nth_append)
  have at_hl: "h' ! hl = ListObject tas"
    by (simp add: h' hl_def pl_def n_def nth_append)
  have at_st: "h' ! Suc hl = StateObject (cash v) pl hl"
    by (simp add: h' hl_def pl_def n_def nth_append)
  have "read_state h' st = Some (cash v, pl, hl)"
    by (simp add: read_state_def lookup_def at_st len st)
  moreover have "read_list h' pl = Some pas"
    by (simp add: read_list_def lookup_def at_pl len hl_def)
  moreover have "read_list h' hl = Some tas"
    by (simp add: read_list_def lookup_def at_hl len)
  moreover have "read_all (read_position h') pas = Some (positions v)"
    unfolding pas_def read_all_upt
    by (simp add: read_position_def lookup_def at_P len hl_def pl_def P_def)
  moreover have "read_all (read_trade h') tas = Some (history v)"
    unfolding tas_def read_all_upt
    by (simp add: read_trade_def lookup_def at_T len hl_def T_def)
  moreover have "distinct pas" "pl \<noteq> hl" "n \<le> st" "n \<le> pl" "n \<le> hl"
    "list_all (\<lambda>a. n \<le> a) pas" "list_all (\<lambda>a. n \<le> a) tas"
    by (auto simp: pas_def tas_def hl_def pl_def st list_all_iff)
  ultimately have "owns n h' st pl hl pas tas v"
    by (simp add: owns_def)
  moreover have "take (length h) h' = h"
    by (simp add: h')
  moreover have "length h \<le> st"
    by (simp add: st hl_def pl_def n_def)
  ultimately show ?thesis
    unfolding n_def by blast
qed

text \<open>A value read from a store is read from every store that extends it.\<close>

lemma model_dump_prefix:
  assumes "model_dump h r = Some v" and "take (length h) h' = h"
  shows "model_dump h' r = Some v"
proof -
  have l: "lookup h' a = lookup h a" if "a < length h" for a
  proof -
    have "length h \<le> length h'"
      using assms(2) by (metis length_take min.cobounded1)
    moreover have "h' ! a = h ! a"
      using assms(2) that by (metis nth_take)
    ultimately show ?thesis
      using that by (simp add: lookup_def)
  qed
  have rs: "read_state h' a = Some x" if "read_state h a = Some x" for a x
    using that l [OF reads_bound(1) [OF that]] by (simp add: read_state_def)
  have rl: "read_list h' a = Some x" if "read_list h a = Some x" for a x
    using that l [OF reads_bound(2) [OF that]] by (simp add: read_list_def)
  have rp: "read_position h' a = Some x" if "read_position h a = Some x" for a x
    using that l [OF reads_bound(3) [OF that]] by (simp add: read_position_def)
  have rt: "read_trade h' a = Some x" if "read_trade h a = Some x" for a x
    using that l [OF reads_bound(4) [OF that]] by (simp add: read_trade_def)
  have rap: "read_all (read_position h') as = Some xs" if "read_all (read_position h) as = Some xs" for as xs
    using that rp by (simp add: read_all_Some_iff)
  have rat: "read_all (read_trade h') as = Some xs" if "read_all (read_trade h) as = Some xs" for as xs
    using that rt by (simp add: read_all_Some_iff)
  from assms(1) obtain c pl hl pas tas where
    "read_state h r = Some (c, pl, hl)" "read_list h pl = Some pas"
    "read_all (read_position h) pas = Some (positions v)" "read_list h hl = Some tas"
    "read_all (read_trade h) tas = Some (history v)" "cash v = c"
    by (auto simp: model_dump_def split: Option.bind_splits)
  then show ?thesis
    using rs rl rap rat by (simp add: model_dump_def)
qed

subsection \<open>The state that a call owns\<close>

lemma owns_model_dump:
  "owns n h st pl hl pas tas v \<Longrightarrow> model_dump h st = Some v"
  by (simp add: owns_def model_dump_def)

lemma owns_lengths:
  "owns n h st pl hl pas tas v \<Longrightarrow> length pas = length (positions v) \<and> length tas = length (history v)"
  by (simp add: owns_def read_all_Some_iff)

lemma owns_read_position:
  "owns n h st pl hl pas tas v \<Longrightarrow> i < length pas \<Longrightarrow>
   read_position h (pas ! i) = Some (positions v ! i)"
  by (simp add: owns_def read_all_Some_iff)

lemma owns_read_state:
  "owns n h st pl hl pas tas v \<Longrightarrow> read_state h st = Some (cash v, pl, hl)"
  by (simp add: owns_def)

text \<open>Addresses of different kinds of object differ.\<close>

lemma owns_separate:
  assumes "owns n h st pl hl pas tas v"
  shows "st \<noteq> pl" "st \<noteq> hl" "st \<notin> set pas" "st \<notin> set tas" "pl \<notin> set pas" "pl \<notin> set tas"
    "hl \<notin> set pas" "hl \<notin> set tas" "set pas \<inter> set tas = {}"
    "st < length h" "pl < length h" "hl < length h" "\<forall>a \<in> set pas. a < length h"
    "\<forall>a \<in> set tas. a < length h"
proof -
  have s: "read_state h st = Some (cash v, pl, hl)" and l1: "read_list h pl = Some pas"
    and l2: "read_list h hl = Some tas"
    using assms by (simp_all add: owns_def)
  have p: "\<exists>p. read_position h a = Some p" if "a \<in> set pas" for a
    using assms that by (auto simp: owns_def read_all_Some_iff in_set_conv_nth)
  have t: "\<exists>t. read_trade h a = Some t" if "a \<in> set tas" for a
    using assms that by (auto simp: owns_def read_all_Some_iff in_set_conv_nth)
  show "st \<noteq> pl" "st \<noteq> hl"
    using reads_disjoint(1) [OF s] l1 l2 by auto
  show "st \<notin> set pas" "st \<notin> set tas"
    using reads_disjoint(1) [OF s] p t by fastforce+
  show "pl \<notin> set pas" "pl \<notin> set tas"
    using reads_disjoint(2) [OF l1] p t by fastforce+
  show "hl \<notin> set pas" "hl \<notin> set tas"
    using reads_disjoint(2) [OF l2] p t by fastforce+
  show "set pas \<inter> set tas = {}"
    using p t reads_disjoint(3) by fastforce
  show "st < length h" "pl < length h" "hl < length h"
    using s l1 l2 reads_bound by blast+
  show "\<forall>a \<in> set pas. a < length h" "\<forall>a \<in> set tas. a < length h"
    using p t reads_bound by blast+
qed

lemma owns_below: "owns n h st pl hl pas tas v \<Longrightarrow> n \<le> length h"
  using owns_separate(10) [of n h st pl hl pas tas v] by (simp add: owns_def)

lemma owns_set_cash:
  assumes "owns n h st pl hl pas tas v"
  shows "set_cash h st c = Some (h[st := StateObject c pl hl])"
    and "owns n (h[st := StateObject c pl hl]) st pl hl pas tas (v\<lparr>cash := c\<rparr>)"
proof -
  note sep = owns_separate [OF assms]
  show "set_cash h st c = Some (h[st := StateObject c pl hl])"
    using assms by (simp add: set_cash_def owns_def)
  have "read_all (read_position (h[st := StateObject c pl hl])) pas = read_all (read_position h) pas"
    using sep(3) by (intro read_all_cong) (auto simp: reads_update)
  moreover have "read_all (read_trade (h[st := StateObject c pl hl])) tas = read_all (read_trade h) tas"
    using sep(4) by (intro read_all_cong) (auto simp: reads_update)
  ultimately show "owns n (h[st := StateObject c pl hl]) st pl hl pas tas (v\<lparr>cash := c\<rparr>)"
    using assms sep(1,2,10) by (simp add: owns_def reads_update)
qed

lemma owns_set_position:
  assumes "owns n h st pl hl pas tas v" and "i < length pas"
  shows "set_position h (pas ! i) p = Some (h[pas ! i := PositionObject p])"
    and "owns n (h[pas ! i := PositionObject p]) st pl hl pas tas
           (v\<lparr>positions := (positions v)[i := p]\<rparr>)"
proof -
  note sep = owns_separate [OF assms(1)]
  have in_pas: "pas ! i \<in> set pas"
    using assms(2) by simp
  then have lt: "pas ! i < length h"
    using sep(13) by blast
  have ne: "pas ! i \<noteq> st" "pas ! i \<noteq> pl" "pas ! i \<noteq> hl" "pas ! i \<notin> set tas"
    using in_pas sep by auto
  show "set_position h (pas ! i) p = Some (h[pas ! i := PositionObject p])"
    using owns_read_position [OF assms] by (simp add: set_position_def)
  have "read_all (read_position (h[pas ! i := PositionObject p])) pas = Some ((positions v)[i := p])"
  proof (rule read_all_update)
    show "read_all (read_position h) pas = Some (positions v)" "distinct pas"
      using assms(1) by (simp_all add: owns_def)
    show "i < length pas" by fact
    show "read_position (h[pas ! i := PositionObject p]) (pas ! i) = Some p"
      using lt by (simp add: reads_update)
    show "read_position (h[pas ! i := PositionObject p]) a = read_position h a" if "a \<noteq> pas ! i" for a
      using that by (simp add: reads_update)
  qed
  moreover have "read_all (read_trade (h[pas ! i := PositionObject p])) tas = read_all (read_trade h) tas"
    using ne(4) by (intro read_all_cong) (auto simp: reads_update)
  ultimately show "owns n (h[pas ! i := PositionObject p]) st pl hl pas tas
           (v\<lparr>positions := (positions v)[i := p]\<rparr>)"
    using assms(1) ne(1-3) by (simp add: owns_def reads_update)
qed

lemma owns_alloc:
  assumes "owns n h st pl hl pas tas v"
  shows "owns n (h @ [ob]) st pl hl pas tas v"
proof -
  note sep = owns_separate [OF assms]
  have "read_all (read_position (h @ [ob])) pas = read_all (read_position h) pas"
    using sep(13) by (intro read_all_cong) (auto simp: reads_append)
  moreover have "read_all (read_trade (h @ [ob])) tas = read_all (read_trade h) tas"
    using sep(14) by (intro read_all_cong) (auto simp: reads_append)
  ultimately show ?thesis
    using assms sep(10-12) by (simp add: owns_def reads_append)
qed

lemma find_position_ref_eq:
  "read_all (read_position h) pas = Some ps \<Longrightarrow>
   find_position_ref h pas s = Some (map_option (\<lambda>i. pas ! i) (find_position ps s))"
proof (induction pas arbitrary: ps)
  case Nil
  then show ?case by simp
next
  case (Cons a pas)
  from Cons.prems obtain p ps' where
    p: "read_position h a = Some p" "read_all (read_position h) pas = Some ps'" "ps = p # ps'"
    by (auto split: Option.bind_splits)
  show ?case
    using p Cons.IH [OF p(2)] by (auto split: option.splits)
qed

lemma owns_ensure_position:
  assumes "owns n h st pl hl pas tas v" and "ensure_position (positions v) s = (ps', i)"
  shows "\<exists>h' pas'. ensure_position_ref h pl s = Some (h', pas' ! i) \<and> i < length pas' \<and>
           owns n h' st pl hl pas' tas (v\<lparr>positions := ps'\<rparr>) \<and> take n h' = take n h"
proof -
  note sep = owns_separate [OF assms(1)]
  have rl: "read_list h pl = Some pas" and ra: "read_all (read_position h) pas = Some (positions v)"
    using assms(1) by (simp_all add: owns_def)
  note fr = find_position_ref_eq [OF ra, of s]
  show ?thesis
  proof (cases "find_position (positions v) s")
    case (Some j)
    then have e: "ps' = positions v" "i = j"
      using assms(2) by (simp_all add: ensure_position_def)
    have "ensure_position_ref h pl s = Some (h, pas ! i)"
      using rl fr Some e by (simp add: ensure_position_ref_def)
    moreover have "i < length pas"
      using find_position_less [OF Some] owns_lengths [OF assms(1)] e by simp
    moreover have "v\<lparr>positions := ps'\<rparr> = v"
      using e by simp
    ultimately show ?thesis
      using assms(1) by auto
  next
    case None
    let ?z = "\<lparr>Position.symbol = s, quantity = 0, avg_price = 0\<rparr>"
    let ?h1 = "h @ [PositionObject ?z]"
    let ?h2 = "?h1[pl := ListObject (pas @ [length h])]"
    have e: "ps' = positions v @ [?z]" "i = length pas"
      using assms(2) None owns_lengths [OF assms(1)] by (simp_all add: ensure_position_def)
    have o1: "owns n ?h1 st pl hl pas tas v"
      using assms(1) by (rule owns_alloc)
    note sep1 = owns_separate [OF o1]
    have new: "length h \<notin> set pas" "length h \<notin> set tas" "length h \<noteq> pl" "length h \<noteq> st"
      "length h \<noteq> hl"
      using sep(10-14) by auto
    have "list_append ?h1 pl (length h) = Some ?h2"
      using o1 by (simp add: list_append_def owns_def)
    then have run: "ensure_position_ref h pl s = Some (?h2, (pas @ [length h]) ! i)"
      using rl fr None e by (simp add: ensure_position_ref_def alloc_def)
    have rp: "read_position ?h2 a = read_position ?h1 a" if "a \<noteq> pl" for a
      using that by (simp add: reads_update)
    have "read_all (read_position ?h2) pas = read_all (read_position ?h1) pas"
      using sep(5) by (intro read_all_cong) (auto simp: reads_update)
    then have "read_all (read_position ?h2) pas = Some (positions v)"
      using o1 by (simp add: owns_def)
    moreover have "read_position ?h2 (length h) = Some ?z"
      using new(3) by (simp add: reads_update reads_append)
    ultimately have a: "read_all (read_position ?h2) (pas @ [length h]) = Some (positions v @ [?z])"
      by (rule read_all_snoc)
    have b: "read_all (read_trade ?h2) tas = read_all (read_trade ?h1) tas"
      using sep(6) by (intro read_all_cong) (auto simp: reads_update)
    have c: "list_all (\<lambda>a. n \<le> a) (pas @ [length h])"
      using assms(1) owns_below [OF assms(1)] by (simp add: owns_def)
    have "owns n ?h2 st pl hl (pas @ [length h]) tas (v\<lparr>positions := ps'\<rparr>)"
      using o1 a b c new(1) sep1(1,11) sep(1) e(1)
      by (simp add: owns_def reads_update)
    moreover have "take n ?h2 = take n h"
      using owns_below [OF assms(1)] assms(1) by (simp add: owns_def take_update_cancel)
    moreover have "i < length (pas @ [length h])"
      using e by simp
    ultimately show ?thesis
      using run by blast
  qed
qed

lemma owns_append_trade:
  assumes "owns n h st pl hl pas tas v"
  shows "\<exists>h' tas'. append_trade h st t = Some h' \<and>
           owns n h' st pl hl pas tas' (v\<lparr>history := history v @ [t]\<rparr>) \<and> take n h' = take n h"
proof -
  note sep = owns_separate [OF assms]
  let ?h1 = "h @ [TradeObject t]"
  let ?h2 = "?h1[hl := ListObject (tas @ [length h])]"
  have o1: "owns n ?h1 st pl hl pas tas v"
    using assms by (rule owns_alloc)
  note sep1 = owns_separate [OF o1]
  have new: "length h \<noteq> hl"
    using sep(12) by auto
  have "list_append ?h1 hl (length h) = Some ?h2"
    using o1 by (simp add: list_append_def owns_def)
  then have run: "append_trade h st t = Some ?h2"
    using assms by (simp add: append_trade_def alloc_def owns_def)
  have a: "read_all (read_position ?h2) pas = read_all (read_position ?h1) pas"
    using sep(7) by (intro read_all_cong) (auto simp: reads_update)
  have "read_all (read_trade ?h2) tas = read_all (read_trade ?h1) tas"
    using sep(8) by (intro read_all_cong) (auto simp: reads_update)
  then have "read_all (read_trade ?h2) tas = Some (history v)"
    using o1 by (simp add: owns_def)
  moreover have "read_trade ?h2 (length h) = Some t"
    using new by (simp add: reads_update reads_append)
  ultimately have b: "read_all (read_trade ?h2) (tas @ [length h]) = Some (history v @ [t])"
    by (rule read_all_snoc)
  have c: "list_all (\<lambda>a. n \<le> a) (tas @ [length h])"
    using assms owns_below [OF assms] by (simp add: owns_def)
  have "owns n ?h2 st pl hl pas (tas @ [length h]) (v\<lparr>history := history v @ [t]\<rparr>)"
    using o1 a b c sep1(2,12) sep(2)
    by (simp add: owns_def reads_update)
  moreover have "take n ?h2 = take n h"
    using owns_below [OF assms] assms by (simp add: owns_def take_update_cancel)
  ultimately show ?thesis
    using run by blast
qed

subsection \<open>The update in place against the update of values\<close>

lemma trade_in_place_buy:
  assumes o: "owns n h st pl hl pas tas v"
  shows "\<exists>h' res. trade_in_place h st symb ''buy'' qty prc tm = Some (h', res) \<and>
           take n h' = take n h \<and>
           (case res of
              Inl e \<Rightarrow> execute_trade v symb ''buy'' qty prc tm = Inl e
            | Inr r' \<Rightarrow> r' = st \<and>
                (\<exists>v'. execute_trade v symb ''buy'' qty prc tm = Inr v' \<and> model_dump h' st = Some v'))"
proof (cases "cash v < qty * prc")
  case True
  have "trade_in_place h st symb ''buy'' qty prc tm = Some (h, Inl (ValueError ''Insufficient cash''))"
    using True owns_read_state [OF o] by (simp add: trade_in_place_def)
  moreover have "execute_trade v symb ''buy'' qty prc tm = Inl (ValueError ''Insufficient cash'')"
    using True by (simp add: execute_trade_def)
  ultimately show ?thesis by simp
next
  case False
  define c1 where "c1 = cash v - qty * prc"
  define t where "t = \<lparr>Trade.symbol = symb, side = ''buy'', quantity = qty, price = prc, time = tm\<rparr>"
  obtain ps i where e: "ensure_position (positions v) symb = (ps, i)"
    by (cases "ensure_position (positions v) symb")
  define p where "p = ps ! i"
  define new_qty where "new_qty = Position.quantity p + qty"
  define p1 where "p1 = p\<lparr>avg_price := (avg_price p * Position.quantity p + prc * qty)
                                   / max new_qty (1 / 10 ^ 9)\<rparr>"
  define p2 where "p2 = p1\<lparr>Position.quantity := new_qty\<rparr>"
  define h1 where "h1 = h[st := StateObject c1 pl hl]"
  have s1: "set_cash h st c1 = Some h1" and o1: "owns n h1 st pl hl pas tas (v\<lparr>cash := c1\<rparr>)"
    unfolding h1_def using o by (rule owns_set_cash)+
  have "ensure_position (positions (v\<lparr>cash := c1\<rparr>)) symb = (ps, i)"
    using e by simp
  from owns_ensure_position [OF o1 this] obtain h2 pas' where
    s2: "ensure_position_ref h1 pl symb = Some (h2, pas' ! i)" and i: "i < length pas'" and
    o2: "owns n h2 st pl hl pas' tas (v\<lparr>cash := c1, positions := ps\<rparr>)" and
    t2: "take n h2 = take n h1"
    by auto
  have li: "i < length ps"
    using i owns_lengths [OF o2] by simp
  have r2: "read_position h2 (pas' ! i) = Some p"
    using owns_read_position [OF o2 i] by (simp add: p_def)
  define h3 where "h3 = h2[pas' ! i := PositionObject p1]"
  have s3: "set_position h2 (pas' ! i) p1 = Some h3"
    and o3: "owns n h3 st pl hl pas' tas (v\<lparr>cash := c1, positions := ps[i := p1]\<rparr>)"
    unfolding h3_def using owns_set_position [OF o2 i, of p1] by simp_all
  have r3: "read_position h3 (pas' ! i) = Some p1"
    using owns_read_position [OF o3 i] li by simp
  define h4 where "h4 = h3[pas' ! i := PositionObject p2]"
  have s4: "set_position h3 (pas' ! i) p2 = Some h4"
    and o4: "owns n h4 st pl hl pas' tas (v\<lparr>cash := c1, positions := ps[i := p2]\<rparr>)"
    unfolding h4_def using owns_set_position [OF o3 i, of p2] by simp_all
  from owns_append_trade [OF o4, of t] obtain h5 tas' where
    s5: "append_trade h4 st t = Some h5" and
    o5: "owns n h5 st pl hl pas' tas' (v\<lparr>cash := c1, positions := ps[i := p2], history := history v @ [t]\<rparr>)"
    and t5: "take n h5 = take n h4"
    by auto
  have nle: "n \<le> st" "n \<le> pas' ! i"
    using o2 i by (simp_all add: owns_def list_all_length)
  have run: "trade_in_place h st symb ''buy'' qty prc tm = Some (h5, Inr st)"
    using False owns_read_state [OF o] s1 s2 r2 s3 r3 s4 s5
    unfolding c1_def t_def p2_def p1_def new_qty_def
    by (simp add: trade_in_place_def)
  have pre: "take n h5 = take n h"
    using t5 t2 nle by (simp add: h4_def h3_def h1_def take_update_cancel)
  have val: "execute_trade v symb ''buy'' qty prc tm =
               Inr (v\<lparr>cash := c1, positions := ps[i := p2], history := history v @ [t]\<rparr>)"
    using False e
    by (simp add: execute_trade_def Let_def c1_def t_def p2_def p1_def new_qty_def p_def)
  show ?thesis
    using run pre val owns_model_dump [OF o5] by simp
qed

lemma trade_in_place_sell:
  assumes o: "owns n h st pl hl pas tas v" and sd: "sd \<noteq> ''buy''"
  shows "\<exists>h' res. trade_in_place h st symb sd qty prc tm = Some (h', res) \<and>
           take n h' = take n h \<and>
           (case res of
              Inl e \<Rightarrow> execute_trade v symb sd qty prc tm = Inl e
            | Inr r' \<Rightarrow> r' = st \<and>
                (\<exists>v'. execute_trade v symb sd qty prc tm = Inr v' \<and> model_dump h' st = Some v'))"
proof -
  obtain ps i where e: "ensure_position (positions v) symb = (ps, i)"
    by (cases "ensure_position (positions v) symb")
  define p where "p = ps ! i"
  from owns_ensure_position [OF o e] obtain h2 pas' where
    s2: "ensure_position_ref h pl symb = Some (h2, pas' ! i)" and i: "i < length pas'" and
    o2: "owns n h2 st pl hl pas' tas (v\<lparr>positions := ps\<rparr>)" and
    t2: "take n h2 = take n h"
    by auto
  have li: "i < length ps"
    using i owns_lengths [OF o2] by simp
  have r2: "read_position h2 (pas' ! i) = Some p"
    using owns_read_position [OF o2 i] by (simp add: p_def)
  show ?thesis
  proof (cases "Position.quantity p < qty")
    case True
    have "trade_in_place h st symb sd qty prc tm = Some (h2, Inl (ValueError ''Insufficient shares''))"
      using True sd owns_read_state [OF o] s2 r2 by (simp add: trade_in_place_def)
    moreover have "execute_trade v symb sd qty prc tm = Inl (ValueError ''Insufficient shares'')"
      using True sd e by (simp add: execute_trade_def p_def)
    ultimately show ?thesis
      using t2 by simp
  next
    case False
    define c1 where "c1 = cash v + qty * prc"
    define t where "t = \<lparr>Trade.symbol = symb, side = sd, quantity = qty, price = prc, time = tm\<rparr>"
    define p1 where "p1 = p\<lparr>Position.quantity := Position.quantity p - qty\<rparr>"
    define p2 where "p2 = (if Position.quantity p1 = 0 then p1\<lparr>avg_price := 0\<rparr> else p1)"
    define h3 where "h3 = h2[st := StateObject c1 pl hl]"
    have rs: "read_state h2 st = Some (cash v, pl, hl)"
      using owns_read_state [OF o2] by simp
    have s3: "set_cash h2 st c1 = Some h3"
      and o3: "owns n h3 st pl hl pas' tas (v\<lparr>cash := c1, positions := ps\<rparr>)"
    proof -
      have eq: "v\<lparr>cash := c1, positions := ps\<rparr> = v\<lparr>positions := ps, cash := c1\<rparr>"
        by (cases v) simp
      show "set_cash h2 st c1 = Some h3"
        unfolding h3_def using o2 by (rule owns_set_cash)
      show "owns n h3 st pl hl pas' tas (v\<lparr>cash := c1, positions := ps\<rparr>)"
        unfolding h3_def eq using o2 by (rule owns_set_cash)
    qed
    have r3: "read_position h3 (pas' ! i) = Some p"
      using owns_read_position [OF o3 i] by (simp add: p_def)
    define h4 where "h4 = h3[pas' ! i := PositionObject p1]"
    have s4: "set_position h3 (pas' ! i) p1 = Some h4"
      and o4: "owns n h4 st pl hl pas' tas (v\<lparr>cash := c1, positions := ps[i := p1]\<rparr>)"
      unfolding h4_def using owns_set_position [OF o3 i, of p1] by simp_all
    have r4: "read_position h4 (pas' ! i) = Some p1"
      using owns_read_position [OF o4 i] li by simp
    define h5 where "h5 = (if Position.quantity p1 = 0 then h4[pas' ! i := PositionObject p2] else h4)"
    have s5: "(if Position.quantity p1 = 0 then set_position h4 (pas' ! i) (p1\<lparr>avg_price := 0\<rparr>)
               else Some h4) = Some h5"
      and o5: "owns n h5 st pl hl pas' tas (v\<lparr>cash := c1, positions := ps[i := p2]\<rparr>)"
      unfolding h5_def p2_def using owns_set_position [OF o4 i, of "p1\<lparr>avg_price := 0\<rparr>"] o4
      by simp_all
    from owns_append_trade [OF o5, of t] obtain h6 tas' where
      s6: "append_trade h5 st t = Some h6" and
      o6: "owns n h6 st pl hl pas' tas'
             (v\<lparr>cash := c1, positions := ps[i := p2], history := history v @ [t]\<rparr>)"
      and t6: "take n h6 = take n h5"
      by auto
    have nle: "n \<le> st" "n \<le> pas' ! i"
      using o2 i by (simp_all add: owns_def list_all_length)
    have run: "trade_in_place h st symb sd qty prc tm = Some (h6, Inr st)"
      using False sd owns_read_state [OF o] s2 r2 rs s3 r3 s4 r4 s5 s6
      unfolding c1_def t_def p1_def
      by (simp add: trade_in_place_def)
    have pre: "take n h6 = take n h"
      using t6 t2 nle by (simp add: h5_def h4_def h3_def take_update_cancel)
    have val: "execute_trade v symb sd qty prc tm =
               Inr (v\<lparr>cash := c1, positions := ps[i := p2], history := history v @ [t]\<rparr>)"
      using False sd e
      by (simp add: execute_trade_def Let_def c1_def t_def p2_def p1_def p_def)
    show ?thesis
      using run pre val owns_model_dump [OF o6] by simp
  qed
qed

lemma trade_in_place_refines:
  assumes "owns n h st pl hl pas tas v"
  shows "\<exists>h' res. trade_in_place h st symb sd qty prc tm = Some (h', res) \<and>
           take n h' = take n h \<and>
           (case res of
              Inl e \<Rightarrow> execute_trade v symb sd qty prc tm = Inl e
            | Inr r' \<Rightarrow> r' = st \<and>
                (\<exists>v'. execute_trade v symb sd qty prc tm = Inr v' \<and> model_dump h' st = Some v'))"
proof (cases "sd = ''buy''")
  case True
  show ?thesis
    unfolding True using assms by (rule trade_in_place_buy)
next
  case False
  with assms show ?thesis
    by (rule trade_in_place_sell)
qed

text \<open>
  C3. A call on a reference \<open>r\<close> to a state of value \<open>v\<close> always ends, by a raise or a
  return. Whichever it is, every object that was in the store before the call is unchanged
  afterwards, so the state at \<open>r\<close> still has the value \<open>v\<close>: cash, positions and history.
  A raise is the one that \<open>execute_trade\<close> has on \<open>v\<close>. A return gives a reference to an
  object that did not exist before the call, hence other than \<open>r\<close>, and the state there
  has the value that \<open>execute_trade\<close> returns on \<open>v\<close>.
\<close>

theorem input_state_not_mutated:
  assumes "model_dump h r = Some v"
  shows "\<exists>h' res. execute_trade_heap h r symb sd qty prc tm = Some (h', res) \<and>
           take (length h) h' = h \<and> model_dump h' r = Some v \<and>
           (case res of
              Inl e \<Rightarrow> execute_trade v symb sd qty prc tm = Inl e
            | Inr r' \<Rightarrow> length h \<le> r' \<and> r' \<noteq> r \<and>
                (\<exists>v'. execute_trade v symb sd qty prc tm = Inr v' \<and> model_dump h' r' = Some v'))"
proof -
  obtain h1 st where c: "construct h v = (h1, st)"
    by (cases "construct h v")
  from construct_owns [OF c] obtain pl hl pas tas where
    t1: "take (length h) h1 = h" and st: "length h \<le> st" and
    o: "owns (length h) h1 st pl hl pas tas v"
    by blast
  from trade_in_place_refines [OF o, of symb sd qty prc tm] obtain h' res where
    run: "trade_in_place h1 st symb sd qty prc tm = Some (h', res)" and
    t2: "take (length h) h' = take (length h) h1" and
    res: "case res of
              Inl e \<Rightarrow> execute_trade v symb sd qty prc tm = Inl e
            | Inr r' \<Rightarrow> r' = st \<and>
                (\<exists>v'. execute_trade v symb sd qty prc tm = Inr v' \<and> model_dump h' st = Some v')"
    by blast
  have e: "execute_trade_heap h r symb sd qty prc tm = Some (h', res)"
    using assms c run by (simp add: execute_trade_heap_def)
  have p: "take (length h) h' = h"
    using t1 t2 by simp
  have d: "model_dump h' r = Some v"
    using assms p by (rule model_dump_prefix)
  have "r < length h"
    using assms reads_bound(1) [of h r] by (auto simp: model_dump_def split: Option.bind_splits)
  then have "case res of
              Inl e \<Rightarrow> execute_trade v symb sd qty prc tm = Inl e
            | Inr r' \<Rightarrow> length h \<le> r' \<and> r' \<noteq> r \<and>
                (\<exists>v'. execute_trade v symb sd qty prc tm = Inr v' \<and> model_dump h' r' = Some v')"
    using res st by (cases res) auto
  with e p d show ?thesis
    by blast
qed

theorem input_state_not_mutated_witness:
  "model_dump example_heap 3 =
     Some \<lparr>cash = 100, positions = [\<lparr>Position.symbol = ''X'', quantity = 5, avg_price = 10\<rparr>],
           history = []\<rparr> \<and>
   (\<exists>h' r'. execute_trade_heap example_heap 3 ''X'' ''sell'' 2 20 ''t'' = Some (h', Inr r') \<and>
      take (length example_heap) h' = example_heap \<and> r' \<noteq> 3 \<and>
      model_dump h' 3 =
        Some \<lparr>cash = 100, positions = [\<lparr>Position.symbol = ''X'', quantity = 5, avg_price = 10\<rparr>],
              history = []\<rparr> \<and>
      model_dump h' r' =
        Some \<lparr>cash = 140, positions = [\<lparr>Position.symbol = ''X'', quantity = 3, avg_price = 10\<rparr>],
              history = [\<lparr>Trade.symbol = ''X'', side = ''sell'', quantity = 2, price = 20,
                          time = ''t''\<rparr>]\<rparr>) \<and>
   (\<exists>h' e. execute_trade_heap example_heap 3 ''Y'' ''sell'' 2 20 ''t'' = Some (h', Inl e) \<and>
      take (length example_heap) h' = example_heap \<and>
      model_dump h' 3 =
        Some \<lparr>cash = 100, positions = [\<lparr>Position.symbol = ''X'', quantity = 5, avg_price = 10\<rparr>],
              history = []\<rparr>)"
proof -
  let ?v = "\<lparr>cash = 100, positions = [\<lparr>Position.symbol = ''X'', quantity = 5, avg_price = 10\<rparr>],
            history = []\<rparr>"
  have a: "model_dump example_heap 3 = Some ?v"
    by (simp add: example_heap_def model_dump_def read_state_def read_list_def read_position_def
        lookup_def)
  have x: "execute_trade ?v ''X'' ''sell'' 2 20 ''t'' =
     Inr \<lparr>cash = 140, positions = [\<lparr>Position.symbol = ''X'', quantity = 3, avg_price = 10\<rparr>],
              history = [\<lparr>Trade.symbol = ''X'', side = ''sell'', quantity = 2, price = 20,
                          time = ''t''\<rparr>]\<rparr>"
    by (simp add: execute_trade_def ensure_position_def)
  have y: "execute_trade ?v ''Y'' ''sell'' 2 20 ''t'' = Inl (ValueError ''Insufficient shares'')"
    by (simp add: execute_trade_def ensure_position_def)
  have "\<exists>h' r'. execute_trade_heap example_heap 3 ''X'' ''sell'' 2 20 ''t'' = Some (h', Inr r') \<and>
      take (length example_heap) h' = example_heap \<and> r' \<noteq> 3 \<and>
      model_dump h' 3 = Some ?v \<and>
      model_dump h' r' =
        Some \<lparr>cash = 140, positions = [\<lparr>Position.symbol = ''X'', quantity = 3, avg_price = 10\<rparr>],
              history = [\<lparr>Trade.symbol = ''X'', side = ''sell'', quantity = 2, price = 20,
                          time = ''t''\<rparr>]\<rparr>"
  proof -
    from input_state_not_mutated [OF a, of "''X''" "''sell''" 2 20 "''t''"] obtain h' res where
      r: "execute_trade_heap example_heap 3 ''X'' ''sell'' 2 20 ''t'' = Some (h', res)"
         "take (length example_heap) h' = example_heap" "model_dump h' 3 = Some ?v"
         "case res of
            Inl e \<Rightarrow> execute_trade ?v ''X'' ''sell'' 2 20 ''t'' = Inl e
          | Inr r' \<Rightarrow> length example_heap \<le> r' \<and> r' \<noteq> 3 \<and>
              (\<exists>v'. execute_trade ?v ''X'' ''sell'' 2 20 ''t'' = Inr v' \<and> model_dump h' r' = Some v')"
      by blast
    show ?thesis
    proof (cases res)
      case (Inl e)
      with r(4) x show ?thesis by simp
    next
      case (Inr r')
      with r x show ?thesis by auto
    qed
  qed
  moreover have "\<exists>h' e. execute_trade_heap example_heap 3 ''Y'' ''sell'' 2 20 ''t'' = Some (h', Inl e) \<and>
      take (length example_heap) h' = example_heap \<and> model_dump h' 3 = Some ?v"
  proof -
    from input_state_not_mutated [OF a, of "''Y''" "''sell''" 2 20 "''t''"] obtain h' res where
      r: "execute_trade_heap example_heap 3 ''Y'' ''sell'' 2 20 ''t'' = Some (h', res)"
         "take (length example_heap) h' = example_heap" "model_dump h' 3 = Some ?v"
         "case res of
            Inl e \<Rightarrow> execute_trade ?v ''Y'' ''sell'' 2 20 ''t'' = Inl e
          | Inr r' \<Rightarrow> length example_heap \<le> r' \<and> r' \<noteq> 3 \<and>
              (\<exists>v'. execute_trade ?v ''Y'' ''sell'' 2 20 ''t'' = Inr v' \<and> model_dump h' r' = Some v')"
      by blast
    show ?thesis
    proof (cases res)
      case (Inl e)
      with r show ?thesis by auto
    next
      case (Inr r')
      with r(4) y show ?thesis by simp
    qed
  qed
  ultimately show ?thesis
    using a by blast
qed

end
